theory Spec2Isabelle
  imports Complex_Main
begin

section \<open>NumPy arrays\<close>

text \<open>
  An array is its shape and its elements in row-major order, as NumPy stores it. The
  elements have one type \<open>'a\<close> (one dtype for all arrays of a bundle). An array is
  valid when it has as many elements as its shape says.
\<close>

record 'a ndarray =
  shape :: "nat list"
  data :: "'a list"

definition valid_array :: "'a ndarray \<Rightarrow> bool" where
  "valid_array a = (length (data a) = prod_list (shape a))"

text \<open>
  The exceptions the module can raise. \<open>ValueError\<close> is raised by the setters (the
  specification calls it DimensionMismatch) and by NumPy on shapes that do not fit;
  \<open>AttributeError\<close> is Python's answer to reading an attribute that was never
  assigned (UninitializedField in the specification); \<open>IndexError\<close> is
  \<open>shape[1]\<close> on an array with fewer than two axes.
\<close>

datatype error = AttributeError | IndexError | ValueError

text \<open>
  Statements in sequence: the first exception raised ends the call, otherwise the
  result is passed on.
\<close>

definition and_then :: "error + 'a \<Rightarrow> ('a \<Rightarrow> error + 'b) \<Rightarrow> error + 'b" where
  "and_then m f = (case m of Inl e \<Rightarrow> Inl e | Inr x \<Rightarrow> f x)"

text \<open>\<open>N.atleast_1d\<close>: a 0-dimensional array becomes a 1-dimensional one of length 1.\<close>

definition atleast_1d :: "'a ndarray \<Rightarrow> 'a ndarray" where
  "atleast_1d a = (if shape a = [] then a\<lparr>shape := [1]\<rparr> else a)"

text \<open>
  The \<open>i\<close>-th block of an array along its first axis: for a 2-dimensional array its
  \<open>i\<close>-th row.
\<close>

definition block :: "'a ndarray \<Rightarrow> nat \<Rightarrow> 'a list" where
  "block a i = take (prod_list (tl (shape a))) (drop (i * prod_list (tl (shape a))) (data a))"

text \<open>
  \<open>N.hstack((a, b))\<close>: both arrays pass through \<open>atleast_1d\<close>; 1-dimensional arrays
  are joined along axis 0, all others along axis 1. NumPy raises \<open>ValueError\<close> when
  the numbers of axes differ or when an axis other than the joined one differs.
\<close>

definition hstack :: "'a ndarray \<Rightarrow> 'a ndarray \<Rightarrow> error + 'a ndarray" where
  "hstack a0 b0 =
     (let a = atleast_1d a0; b = atleast_1d b0 in
      if length (shape a) \<noteq> length (shape b) then Inl ValueError
      else if length (shape a) = 1 then
        Inr \<lparr>shape = [hd (shape a) + hd (shape b)], data = data a @ data b\<rparr>
      else if hd (shape a) = hd (shape b) \<and> drop 2 (shape a) = drop 2 (shape b) then
        Inr \<lparr>shape = hd (shape a) # (shape a ! 1 + shape b ! 1) # drop 2 (shape a),
             data = concat (map (\<lambda>i. block a i @ block b i) [0..<hd (shape a)])\<rparr>
      else Inl ValueError)"

text \<open>
  \<open>a[:, j]\<close> on a 2-dimensional array, the \<open>j\<close>-th column, and \<open>a[j]\<close> on a
  1-dimensional one; \<open>IndexError\<close> outside the array.
\<close>

definition column :: "'a ndarray \<Rightarrow> nat \<Rightarrow> error + 'a list" where
  "column a j =
     (if length (shape a) = 2 \<and> j < shape a ! 1
      then Inr (map (\<lambda>i. data a ! (i * (shape a ! 1) + j)) [0..<shape a ! 0])
      else Inl IndexError)"

definition item :: "'a ndarray \<Rightarrow> nat \<Rightarrow> error + 'a" where
  "item a j =
     (if length (shape a) = 1 \<and> j < shape a ! 0 then Inr (data a ! j) else Inl IndexError)"

section \<open>RayBundle\<close>

text \<open>
  The class has no constructor: a new object has none of its three attributes, and
  reading one that was never assigned raises \<open>AttributeError\<close>. A method that raises
  returns the error and no new object: each setter raises before its assignment, so
  the object it was called on stays as it was.
\<close>

record 'a RayBundle =
  vertices :: "'a ndarray option"
  direct :: "'a ndarray option"
  energy :: "'a ndarray option"

definition RayBundle_new :: "'a RayBundle" where
  "RayBundle_new = \<lparr>vertices = None, direct = None, energy = None\<rparr>"

definition set_vertices :: "'a RayBundle \<Rightarrow> 'a ndarray \<Rightarrow> 'a RayBundle" where
  "set_vertices self vert = self\<lparr>vertices := Some vert\<rparr>"

definition get_vertices :: "'a RayBundle \<Rightarrow> error + 'a ndarray" where
  "get_vertices self = (case vertices self of None \<Rightarrow> Inl AttributeError | Some v \<Rightarrow> Inr v)"

definition get_num_rays :: "'a RayBundle \<Rightarrow> error + nat" where
  "get_num_rays self =
     (case vertices self of
        None \<Rightarrow> Inl AttributeError
      | Some v \<Rightarrow> if length (shape v) < 2 then Inl IndexError else Inr (shape v ! 1))"

definition set_directions :: "'a RayBundle \<Rightarrow> 'a ndarray \<Rightarrow> error + 'a RayBundle" where
  "set_directions self directions =
     (case get_num_rays self of
        Inl e \<Rightarrow> Inl e
      | Inr n \<Rightarrow>
          if shape directions \<noteq> [3, n] then Inl ValueError
          else Inr (self\<lparr>direct := Some directions\<rparr>))"

definition get_directions :: "'a RayBundle \<Rightarrow> error + 'a ndarray" where
  "get_directions self = (case direct self of None \<Rightarrow> Inl AttributeError | Some d \<Rightarrow> Inr d)"

definition set_energy :: "'a RayBundle \<Rightarrow> 'a ndarray \<Rightarrow> error + 'a RayBundle" where
  "set_energy self en =
     (case get_num_rays self of
        Inl e \<Rightarrow> Inl e
      | Inr n \<Rightarrow>
          if shape en \<noteq> [n] then Inl ValueError
          else Inr (self\<lparr>energy := Some en\<rparr>))"

definition get_energy :: "'a RayBundle \<Rightarrow> error + 'a ndarray" where
  "get_energy self = (case energy self of None \<Rightarrow> Inl AttributeError | Some e \<Rightarrow> Inr e)"

text \<open>
  \<open>__add__\<close>, statement by statement: the getters are read in the order self, added;
  the new bundle goes through the three setters.
\<close>

definition add :: "'a RayBundle \<Rightarrow> 'a RayBundle \<Rightarrow> error + 'a RayBundle" where
  "add self added =
     and_then (get_vertices self) (\<lambda>v1.
     and_then (get_vertices added) (\<lambda>v2.
     and_then (hstack v1 v2) (\<lambda>v.
     and_then (Inr (set_vertices RayBundle_new v)) (\<lambda>newbund.
     and_then (get_directions self) (\<lambda>d1.
     and_then (get_directions added) (\<lambda>d2.
     and_then (hstack d1 d2) (\<lambda>d.
     and_then (set_directions newbund d) (\<lambda>newbund.
     and_then (get_energy self) (\<lambda>e1.
     and_then (get_energy added) (\<lambda>e2.
     and_then (hstack e1 e2) (\<lambda>en.
     set_energy newbund en)))))))))))"

text \<open>
  \<open>empty_bund\<close> is a method: it takes an object and does not read it.
  \<open>N.array([[],[],[]])\<close> has shape (3, 0) and \<open>N.array([])\<close> has shape (0,).
\<close>

definition empty_bund :: "'a RayBundle \<Rightarrow> error + 'a RayBundle" where
  "empty_bund self =
     and_then (Inr (set_vertices RayBundle_new \<lparr>shape = [3, 0], data = []\<rparr>)) (\<lambda>empty.
     and_then (set_directions empty \<lparr>shape = [3, 0], data = []\<rparr>) (\<lambda>empty.
     set_energy empty \<lparr>shape = [0], data = []\<rparr>))"

text \<open>
  A populated bundle of \<open>n\<close> rays: the three attributes are set, valid and mutually
  consistent (3 by \<open>n\<close> vertices and directions, \<open>n\<close> energies).
\<close>

definition populated :: "'a RayBundle \<Rightarrow> nat \<Rightarrow> bool" where
  "populated b n =
     (case (vertices b, direct b, energy b) of
        (Some v, Some d, Some e) \<Rightarrow>
          shape v = [3, n] \<and> shape d = [3, n] \<and> shape e = [n]
          \<and> valid_array v \<and> valid_array d \<and> valid_array e
      | _ \<Rightarrow> False)"

text \<open>The \<open>i\<close>-th ray of a bundle, read through the getters.\<close>

definition ray_vertex :: "'a RayBundle \<Rightarrow> nat \<Rightarrow> error + 'a list" where
  "ray_vertex b i = (case get_vertices b of Inl e \<Rightarrow> Inl e | Inr v \<Rightarrow> column v i)"

definition ray_direction :: "'a RayBundle \<Rightarrow> nat \<Rightarrow> error + 'a list" where
  "ray_direction b i = (case get_directions b of Inl e \<Rightarrow> Inl e | Inr d \<Rightarrow> column d i)"

definition ray_energy :: "'a RayBundle \<Rightarrow> nat \<Rightarrow> error + 'a" where
  "ray_energy b i = (case get_energy b of Inl e \<Rightarrow> Inl e | Inr e \<Rightarrow> item e i)"

section \<open>The disk source\<close>

text \<open>
  Floating-point numbers are modelled as real numbers: rounding, infinities and NaN
  are outside the model. \<open>direction\<close> is a 1-dimensional 3-array and \<open>center\<close> a
  column 3-array; both are triples here, and a 3 by 3 matrix is the triple of its rows.
\<close>

type_synonym vec3 = "real \<times> real \<times> real"

type_synonym mat3 = "vec3 \<times> vec3 \<times> vec3"

fun inner :: "vec3 \<Rightarrow> vec3 \<Rightarrow> real" where
  "inner (a0, a1, a2) (b0, b1, b2) = a0 * b0 + a1 * b1 + a2 * b2"

text \<open>\<open>N.cross\<close> of two 3-vectors.\<close>

fun cross :: "vec3 \<Rightarrow> vec3 \<Rightarrow> vec3" where
  "cross (a0, a1, a2) (b0, b1, b2) = (a1 * b2 - a2 * b1, a2 * b0 - a0 * b2, a0 * b1 - a1 * b0)"

text \<open>\<open>N.dot\<close> of a matrix and a vector.\<close>

fun mat_vec :: "mat3 \<Rightarrow> vec3 \<Rightarrow> vec3" where
  "mat_vec (r0, r1, r2) v = (inner r0 v, inner r1 v, inner r2 v)"

fun vec_add :: "vec3 \<Rightarrow> vec3 \<Rightarrow> vec3" where
  "vec_add (a0, a1, a2) (b0, b1, b2) = (a0 + b0, a1 + b1, a2 + b2)"

fun vec_sub :: "vec3 \<Rightarrow> vec3 \<Rightarrow> vec3" where
  "vec_sub (a0, a1, a2) (b0, b1, b2) = (a0 - b0, a1 - b1, a2 - b2)"

fun vec_scale :: "real \<Rightarrow> vec3 \<Rightarrow> vec3" where
  "vec_scale k (a0, a1, a2) = (k * a0, k * a1, k * a2)"

definition vec_norm :: "vec3 \<Rightarrow> real" where
  "vec_norm v = sqrt (inner v v)"

fun vec_list :: "vec3 \<Rightarrow> real list" where
  "vec_list (a0, a1, a2) = [a0, a1, a2]"

text \<open>
  The orthogonal projection of \<open>w\<close> onto the plane through the origin whose unit
  normal is \<open>d\<close>: the plane of the disk, for the displacement of a vertex from the
  center.
\<close>

definition plane_projection :: "vec3 \<Rightarrow> vec3 \<Rightarrow> vec3" where
  "plane_projection d w = vec_sub w (vec_scale (inner w d) d)"

text \<open>The 3 by n array whose columns are the given vectors.\<close>

definition array_of_columns :: "vec3 list \<Rightarrow> real ndarray" where
  "array_of_columns cols =
     \<lparr>shape = [3, length cols],
      data = map fst cols @ map (\<lambda>c. fst (snd c)) cols @ map (\<lambda>c. snd (snd c)) cols\<rparr>"

text \<open>
  The state of NumPy's global random generator is the sequence of the numbers in
  [0, 1) it will produce. \<open>random.uniform(low, high, size=n)\<close> takes the next \<open>n\<close>
  of them, each scaled to \<open>low + (high - low) * u\<close>, and leaves the rest.
\<close>

type_synonym rng = "nat \<Rightarrow> real"

definition uniform :: "real \<Rightarrow> real \<Rightarrow> nat \<Rightarrow> rng \<Rightarrow> real list \<times> rng" where
  "uniform low high n g = (map (\<lambda>i. low + (high - low) * g i) [0..<n], (\<lambda>i. g (i + n)))"

text \<open>
  \<open>xs[msk] = vs\<close> for 1-dimensional arrays. The generator always passes as many
  values as there are rays (\<open>size=len(not_inside)\<close>), also when fewer slots are
  selected, and what NumPy does then depends on its release. Current releases raise
  \<open>ValueError\<close> unless there is one value, or one value for each selected slot
  (\<open>Strict\<close>). The releases of the time the module was written filled the selected
  slots with the values in order, starting over when they ran out (\<open>Cyclic\<close>). The
  model has both; the mask has the length of the array and there is at least one
  value wherever the generator gets here.
\<close>

datatype assign_rule = Strict | Cyclic

fun put_values :: "nat \<Rightarrow> 'a list \<Rightarrow> bool list \<Rightarrow> 'a list \<Rightarrow> 'a list" where
  "put_values k (x # xs) (m # ms) vs =
     (if m then (vs ! (k mod length vs)) # put_values (Suc k) xs ms vs
      else x # put_values k xs ms vs)"
| "put_values k xs ms vs = xs"

definition masked_assign :: "assign_rule \<Rightarrow> 'a list \<Rightarrow> bool list \<Rightarrow> 'a list \<Rightarrow> error + 'a list" where
  "masked_assign rule xs msk vs =
     (if rule = Strict \<and> length vs \<noteq> 1 \<and> length vs \<noteq> length (filter id msk)
      then Inl ValueError
      else Inr (put_values 0 xs msk vs))"

text \<open>One pass of the rejection loop: the body of the \<open>while\<close>.\<close>

definition loop_body ::
  "assign_rule \<Rightarrow> real \<Rightarrow> bool list \<Rightarrow> real list \<Rightarrow> real list \<Rightarrow> rng
     \<Rightarrow> error + bool list \<times> real list \<times> real list \<times> rng" where
  "loop_body rule radius not_inside xs ys g =
     (let (vx, g1) = uniform (- radius) radius (length not_inside) g in
      and_then (masked_assign rule xs not_inside vx) (\<lambda>xs'.
        let (vy, g2) = uniform (- radius) radius (length not_inside) g1 in
        and_then (masked_assign rule ys not_inside vy) (\<lambda>ys'.
          Inr (map2 (\<lambda>x y. x\<^sup>2 + y\<^sup>2 > radius\<^sup>2) xs' ys', xs', ys', g2))))"

text \<open>
  The rejection loop. It need not end: \<open>None\<close> is the loop that runs forever,
  \<open>Some (Inl e)\<close> an exception, \<open>Some (Inr (xs, ys, g))\<close> the coordinates it leaves
  and the state of the generator.
\<close>

partial_function (option) rejection_loop ::
  "assign_rule \<Rightarrow> real \<Rightarrow> bool list \<Rightarrow> real list \<Rightarrow> real list \<Rightarrow> rng
     \<Rightarrow> (error + real list \<times> real list \<times> rng) option" where
  "rejection_loop rule radius not_inside xs ys g =
     (if True \<in> set not_inside then
        (case loop_body rule radius not_inside xs ys g of
           Inl e \<Rightarrow> Some (Inl e)
         | Inr (not_inside', xs', ys', g') \<Rightarrow> rejection_loop rule radius not_inside' xs' ys' g')
      else Some (Inr (xs, ys, g)))"

text \<open>
  The axis around which \<open>direction\<close> is tilted: \<open>(direction[1], -direction[0], 0)\<close>,
  or \<open>(1, 0, 0)\<close> when all three of its components are zero.
\<close>

fun perp_axis :: "vec3 \<Rightarrow> vec3" where
  "perp_axis (d0, d1, d2) =
     (let perp = (d1, - d0, 0) in if perp = (0, 0, 0) then (1, 0, 0) else perp)"

text \<open>
  The loop over the rays that fills \<open>directions\<close>: \<open>direction\<close> is rotated around
  \<open>perp\<close> by \<open>theta[ray]\<close>, and the result around \<open>direction\<close> by \<open>phi[ray]\<close>.
\<close>

definition ray_directions ::
  "(vec3 \<Rightarrow> real \<Rightarrow> mat3) \<Rightarrow> vec3 \<Rightarrow> vec3 \<Rightarrow> real list \<Rightarrow> real list \<Rightarrow> nat \<Rightarrow> vec3 list" where
  "ray_directions general_axis_rotation direction perp phi theta num_rays =
     map (\<lambda>ray.
         mat_vec (general_axis_rotation direction (phi ! ray))
           (mat_vec (general_axis_rotation perp (theta ! ray)) direction))
       [0..<num_rays]"

text \<open>
  The columns of \<open>vertices_global + center\<close>. Column \<open>j\<close> of
  \<open>N.dot(rot, vertices_local)\<close> is \<open>rot\<close> applied to column \<open>j\<close> of \<open>vertices_local\<close>,
  which is \<open>(xs[j], ys[j], 0)\<close>; \<open>rot\<close> has the rows \<open>perp\<close>,
  \<open>N.cross(direction, perp)\<close> and \<open>direction\<close>.
\<close>

definition global_vertices :: "vec3 \<Rightarrow> vec3 \<Rightarrow> vec3 \<Rightarrow> real list \<Rightarrow> real list \<Rightarrow> vec3 list" where
  "global_vertices perp direction center xs ys =
     (let rot = (perp, cross direction perp, direction);
          vertices_global = map2 (\<lambda>x y. mat_vec rot (x, y, 0)) xs ys
      in map (\<lambda>v. vec_add v center) vertices_global)"

text \<open>
  \<open>solar_disk_bundle\<close>. The rotation primitive \<open>general_axis_rotation\<close> comes from
  another module and is a parameter, as are the rule of the masked assignment and the
  state of the random generator; the state the call leaves is returned with the
  bundle. \<open>N.empty\<close> leaves the contents of \<open>xs\<close> and \<open>ys\<close> open; they are zeros
  here, and the first pass of the loop overwrites every slot before any is read.
  \<open>None\<close> is the call whose rejection loop runs forever.
\<close>

definition solar_disk_bundle ::
  "(vec3 \<Rightarrow> real \<Rightarrow> mat3) \<Rightarrow> assign_rule \<Rightarrow> rng \<Rightarrow> nat \<Rightarrow> vec3 \<Rightarrow> vec3 \<Rightarrow> real \<Rightarrow> real
     \<Rightarrow> (error + real RayBundle \<times> rng) option" where
  "solar_disk_bundle general_axis_rotation rule g num_rays center direction radius ang_range =
     (let (phi, g1) = uniform 0 (2 * pi) num_rays g;
          (theta, g2) = uniform 0 ang_range num_rays g1;
          perp = perp_axis direction;
          directions = ray_directions general_axis_rotation direction perp phi theta num_rays
      in case rejection_loop rule radius (replicate num_rays True)
                (replicate num_rays 0) (replicate num_rays 0) g2 of
           None \<Rightarrow> None
         | Some (Inl e) \<Rightarrow> Some (Inl e)
         | Some (Inr (xs, ys, g3)) \<Rightarrow>
             (let rayb = set_vertices RayBundle_new
                           (array_of_columns (global_vertices perp direction center xs ys))
              in (case set_directions rayb (array_of_columns directions) of
                    Inl e \<Rightarrow> Some (Inl e)
                  | Inr rayb' \<Rightarrow> Some (Inr (rayb', g3)))))"

text \<open>
  Modelled from the spec: \<open>general_axis_rotation\<close> is imported from the module
  \<open>spatial_geometry\<close>, which is not among the sources. The specification has it as a
  pure function from an axis and an angle to a 3 by 3 rotation operator. This is the
  matrix of the axis-angle formula, the instance at which the generator is run on
  concrete inputs; the theorems about the generator are stated for any primitive.
\<close>

fun axis_angle_rotation :: "vec3 \<Rightarrow> real \<Rightarrow> mat3" where
  "axis_angle_rotation (x, y, z) angle =
     (let s = sin angle; c = cos angle; v = 1 - c in
      ((x * x * v + c, x * y * v - z * s, x * z * v + y * s),
       (y * x * v + z * s, y * y * v + c, y * z * v - x * s),
       (z * x * v - y * s, z * y * v + x * s, z * z * v + c)))"

text \<open>A random generator that produces the same number every time.\<close>

definition constant_rng :: "real \<Rightarrow> rng" where
  "constant_rng u = (\<lambda>i. u)"

section \<open>Joining arrays along the ray axis\<close>

lemma concat_blocks_length:
  "(\<And>k. k < r \<Longrightarrow> length (f k) = w) \<Longrightarrow> length (concat (map f [0..<r])) = r * w"
  by (induction r) simp_all

lemma concat_blocks_nth:
  "(\<And>k. k < r \<Longrightarrow> length (f k) = w) \<Longrightarrow> i < r \<Longrightarrow> j < w
     \<Longrightarrow> concat (map f [0..<r]) ! (i * w + j) = f i ! j"
proof (induction r)
  case 0
  then show ?case by simp
next
  case (Suc r)
  have len: "length (concat (map f [0..<r])) = r * w"
    using Suc.prems(1) by (simp add: concat_blocks_length)
  show ?case
  proof (cases "i < r")
    case True
    have "i * w + j < r * w"
    proof -
      have "i * w + j < i * w + w" using Suc.prems(3) by simp
      also have "\<dots> = Suc i * w" by simp
      also have "\<dots> \<le> r * w" using True by (intro mult_le_mono1) simp
      finally show ?thesis .
    qed
    then show ?thesis
      using Suc.IH [OF _ True Suc.prems(3)] Suc.prems(1) len by (simp add: nth_append)
  next
    case False
    then have "i = r" using Suc.prems(2) by simp
    then show ?thesis using len Suc.prems(3) by (simp add: nth_append)
  qed
qed

lemma concat_take_drop:
  "length xs = r * n \<Longrightarrow> concat (map (\<lambda>i. take n (drop (i * n) xs)) [0..<r]) = xs"
proof (induction r arbitrary: xs rule: nat.induct)
  case zero
  then show ?case by simp
next
  case (Suc r)
  have "concat (map (\<lambda>i. take n (drop (i * n) xs)) [0..<r]) = take (r * n) xs"
  proof -
    have "concat (map (\<lambda>i. take n (drop (i * n) (take (r * n) xs))) [0..<r]) = take (r * n) xs"
      using Suc.prems by (intro Suc.IH) simp
    moreover have "\<And>i. i < r \<Longrightarrow> take n (drop (i * n) (take (r * n) xs)) = take n (drop (i * n) xs)"
    proof -
      fix i assume "i < r"
      then have "Suc i * n \<le> r * n" by (intro mult_le_mono1) simp
      then have "n \<le> r * n - i * n" by simp
      then show "take n (drop (i * n) (take (r * n) xs)) = take n (drop (i * n) xs)"
        by (simp add: drop_take min_def)
    qed
    then have "map (\<lambda>i. take n (drop (i * n) (take (r * n) xs))) [0..<r]
        = map (\<lambda>i. take n (drop (i * n) xs)) [0..<r]"
      by (intro map_cong) simp_all
    ultimately show ?thesis by simp
  qed
  moreover have "take n (drop (r * n) xs) = drop (r * n) xs"
    using Suc.prems by simp
  ultimately show ?case by simp
qed

lemma block_length:
  "shape a = [r, n] \<Longrightarrow> valid_array a \<Longrightarrow> i < r \<Longrightarrow> length (block a i) = n"
proof -
  assume s: "shape a = [r, n]" and v: "valid_array a" and i: "i < r"
  have "Suc i * n \<le> r * n" using i by (intro mult_le_mono1) simp
  then have "n \<le> r * n - i * n" by simp
  then show ?thesis using s v by (simp add: block_def valid_array_def)
qed

lemma block_nth:
  "shape a = [r, n] \<Longrightarrow> valid_array a \<Longrightarrow> i < r \<Longrightarrow> j < n
     \<Longrightarrow> block a i ! j = data a ! (i * n + j)"
proof -
  assume s: "shape a = [r, n]" and v: "valid_array a" and i: "i < r" and j: "j < n"
  have "i * n \<le> r * n" using i by (intro mult_le_mono1) simp
  then have "i * n \<le> length (data a)" using s v by (simp add: valid_array_def)
  then show ?thesis using s j by (simp add: block_def)
qed

lemma hstack_2d:
  assumes "shape a = [r, n]" and "shape b = [r, m]"
  shows "hstack a b = Inr \<lparr>shape = [r, n + m],
           data = concat (map (\<lambda>i. block a i @ block b i) [0..<r])\<rparr>"
  using assms by (simp add: hstack_def atleast_1d_def)

lemma hstack_1d:
  assumes "shape a = [n]" and "shape b = [m]"
  shows "hstack a b = Inr \<lparr>shape = [n + m], data = data a @ data b\<rparr>"
  using assms by (simp add: hstack_def atleast_1d_def)

lemma hstack_2d_valid:
  assumes "shape a = [r, n]" and "shape b = [r, m]" and "valid_array a" and "valid_array b"
  shows "valid_array \<lparr>shape = [r, n + m],
           data = concat (map (\<lambda>i. block a i @ block b i) [0..<r])\<rparr>"
proof -
  have "\<And>k. k < r \<Longrightarrow> length (block a k @ block b k) = n + m"
    using assms by (simp add: block_length)
  then have "length (concat (map (\<lambda>i. block a i @ block b i) [0..<r])) = r * (n + m)"
    by (rule concat_blocks_length)
  then show ?thesis by (simp add: valid_array_def)
qed

lemma hstack_2d_column_left:
  assumes "shape a = [r, n]" and "shape b = [r, m]" and "valid_array a" and "valid_array b"
    and "j < n"
  shows "column \<lparr>shape = [r, n + m],
           data = concat (map (\<lambda>i. block a i @ block b i) [0..<r])\<rparr> j = column a j"
proof -
  have len: "\<And>k. k < r \<Longrightarrow> length (block a k @ block b k) = n + m"
    using assms by (simp add: block_length)
  have "\<And>i. i < r \<Longrightarrow>
      concat (map (\<lambda>i. block a i @ block b i) [0..<r]) ! (i * (n + m) + j) = data a ! (i * n + j)"
  proof -
    fix i assume i: "i < r"
    have "concat (map (\<lambda>i. block a i @ block b i) [0..<r]) ! (i * (n + m) + j)
        = (block a i @ block b i) ! j"
      using len i assms(5) by (intro concat_blocks_nth) simp_all
    also have "\<dots> = block a i ! j"
      using assms i by (simp add: nth_append block_length)
    also have "\<dots> = data a ! (i * n + j)"
      using assms i by (simp add: block_nth)
    finally show "concat (map (\<lambda>i. block a i @ block b i) [0..<r]) ! (i * (n + m) + j)
        = data a ! (i * n + j)" .
  qed
  then show ?thesis using assms by (simp add: column_def)
qed

lemma hstack_2d_column_right:
  assumes "shape a = [r, n]" and "shape b = [r, m]" and "valid_array a" and "valid_array b"
    and "n \<le> j" and "j < n + m"
  shows "column \<lparr>shape = [r, n + m],
           data = concat (map (\<lambda>i. block a i @ block b i) [0..<r])\<rparr> j = column b (j - n)"
proof -
  have len: "\<And>k. k < r \<Longrightarrow> length (block a k @ block b k) = n + m"
    using assms by (simp add: block_length)
  have jm: "j - n < m" using assms(5,6) by simp
  have "\<And>i. i < r \<Longrightarrow>
      concat (map (\<lambda>i. block a i @ block b i) [0..<r]) ! (i * (n + m) + j)
        = data b ! (i * m + (j - n))"
  proof -
    fix i assume i: "i < r"
    have "concat (map (\<lambda>i. block a i @ block b i) [0..<r]) ! (i * (n + m) + j)
        = (block a i @ block b i) ! j"
      using len i assms(6) by (intro concat_blocks_nth) simp_all
    also have "\<dots> = block b i ! (j - n)"
      using assms i by (simp add: nth_append block_length)
    also have "\<dots> = data b ! (i * m + (j - n))"
      using assms(2,4) i jm by (simp add: block_nth)
    finally show "concat (map (\<lambda>i. block a i @ block b i) [0..<r]) ! (i * (n + m) + j)
        = data b ! (i * m + (j - n))" .
  qed
  then show ?thesis using assms jm by (simp add: column_def)
qed


section \<open>Properties of RayBundle\<close>

lemma populatedD:
  assumes "populated b n"
  obtains v d e where "b = \<lparr>vertices = Some v, direct = Some d, energy = Some e\<rparr>"
    and "shape v = [3, n]" and "shape d = [3, n]" and "shape e = [n]"
    and "valid_array v" and "valid_array d" and "valid_array e"
proof -
  from assms obtain v d e where f: "vertices b = Some v" "direct b = Some d" "energy b = Some e"
    and p: "shape v = [3, n]" "shape d = [3, n]" "shape e = [n]"
      "valid_array v" "valid_array d" "valid_array e"
    by (auto simp: populated_def split: option.splits)
  from f have "b = \<lparr>vertices = Some v, direct = Some d, energy = Some e\<rparr>"
    by (cases b) simp
  from this p show ?thesis by (rule that)
qed

lemma add_populated:
  assumes "shape v1 = [3, n]" and "shape d1 = [3, n]" and "shape e1 = [n]"
    and "shape v2 = [3, m]" and "shape d2 = [3, m]" and "shape e2 = [m]"
  shows "add \<lparr>vertices = Some v1, direct = Some d1, energy = Some e1\<rparr>
             \<lparr>vertices = Some v2, direct = Some d2, energy = Some e2\<rparr>
         = Inr \<lparr>vertices = Some \<lparr>shape = [3, n + m],
                    data = concat (map (\<lambda>i. block v1 i @ block v2 i) [0..<3])\<rparr>,
                 direct = Some \<lparr>shape = [3, n + m],
                    data = concat (map (\<lambda>i. block d1 i @ block d2 i) [0..<3])\<rparr>,
                 energy = Some \<lparr>shape = [n + m], data = data e1 @ data e2\<rparr>\<rparr>"
  using assms
  by (simp add: add_def and_then_def get_vertices_def get_directions_def get_energy_def
      hstack_2d [of _ 3] hstack_1d set_vertices_def set_directions_def set_energy_def
      get_num_rays_def RayBundle_new_def)

text \<open>
  Claim C1. For populated bundles \<open>A\<close> of \<open>n\<close> rays and \<open>B\<close> of \<open>m\<close> rays, \<open>A + B\<close>
  returns a bundle of \<open>n + m\<close> rays; its vertex, direction and energy at an index
  below \<open>n\<close> are those of \<open>A\<close> at that index, and at an index \<open>i\<close> from \<open>n\<close> up to
  \<open>n + m\<close> those of \<open>B\<close> at \<open>i - n\<close>. None of these reads is an error.
\<close>

theorem add_concatenates:
  assumes "populated A n" and "populated B m"
  shows "\<exists>C. add A B = Inr C \<and> populated C (n + m)
    \<and> get_num_rays A = Inr n \<and> get_num_rays B = Inr m \<and> get_num_rays C = Inr (n + m)
    \<and> (\<forall>i<n. \<not> isl (ray_vertex A i) \<and> \<not> isl (ray_direction A i) \<and> \<not> isl (ray_energy A i)
          \<and> ray_vertex C i = ray_vertex A i
          \<and> ray_direction C i = ray_direction A i
          \<and> ray_energy C i = ray_energy A i)
    \<and> (\<forall>i. n \<le> i \<and> i < n + m \<longrightarrow>
          \<not> isl (ray_vertex B (i - n)) \<and> \<not> isl (ray_direction B (i - n))
          \<and> \<not> isl (ray_energy B (i - n))
          \<and> ray_vertex C i = ray_vertex B (i - n)
          \<and> ray_direction C i = ray_direction B (i - n)
          \<and> ray_energy C i = ray_energy B (i - n))"
proof -
  from assms(1) obtain v1 d1 e1
    where A: "A = \<lparr>vertices = Some v1, direct = Some d1, energy = Some e1\<rparr>"
      and sA: "shape v1 = [3, n]" "shape d1 = [3, n]" "shape e1 = [n]"
      and vA: "valid_array v1" "valid_array d1" "valid_array e1"
    by (rule populatedD)
  from assms(2) obtain v2 d2 e2
    where B: "B = \<lparr>vertices = Some v2, direct = Some d2, energy = Some e2\<rparr>"
      and sB: "shape v2 = [3, m]" "shape d2 = [3, m]" "shape e2 = [m]"
      and vB: "valid_array v2" "valid_array d2" "valid_array e2"
    by (rule populatedD)
  define cv where "cv = \<lparr>shape = [3, n + m],
    data = concat (map (\<lambda>i. block v1 i @ block v2 i) [0..<3])\<rparr>"
  define cd where "cd = \<lparr>shape = [3, n + m],
    data = concat (map (\<lambda>i. block d1 i @ block d2 i) [0..<3])\<rparr>"
  define ce where "ce = \<lparr>shape = [n + m], data = data e1 @ data e2\<rparr>"
  define C where "C = \<lparr>vertices = Some cv, direct = Some cd, energy = Some ce\<rparr>"
  have sum: "add A B = Inr C"
    unfolding A B C_def cv_def cd_def ce_def using sA sB by (rule add_populated)
  have valid: "valid_array cv" "valid_array cd" "valid_array ce"
    unfolding cv_def cd_def ce_def
    using sA sB vA vB by (simp_all add: hstack_2d_valid) (simp add: valid_array_def)
  have pop: "populated C (n + m)"
    using valid by (simp add: populated_def C_def) (simp add: cv_def cd_def ce_def)
  have nums: "get_num_rays A = Inr n" "get_num_rays B = Inr m" "get_num_rays C = Inr (n + m)"
    using sA sB by (simp_all add: get_num_rays_def A B C_def cv_def)
  have left: "\<not> isl (ray_vertex A i) \<and> \<not> isl (ray_direction A i) \<and> \<not> isl (ray_energy A i)
      \<and> ray_vertex C i = ray_vertex A i \<and> ray_direction C i = ray_direction A i
      \<and> ray_energy C i = ray_energy A i" if "i < n" for i
  proof -
    have "column cv i = column v1 i" "column cd i = column d1 i"
      unfolding cv_def cd_def using sA sB vA vB that
      by (simp_all add: hstack_2d_column_left)
    moreover have "item ce i = item e1 i"
      using that sA vA by (simp add: item_def ce_def nth_append valid_array_def)
    moreover have "\<not> isl (column v1 i)" "\<not> isl (column d1 i)" "\<not> isl (item e1 i)"
      using that sA by (simp_all add: column_def item_def)
    ultimately show ?thesis
      by (simp add: ray_vertex_def ray_direction_def ray_energy_def get_vertices_def
          get_directions_def get_energy_def A C_def)
  qed
  have right: "\<not> isl (ray_vertex B (i - n)) \<and> \<not> isl (ray_direction B (i - n))
      \<and> \<not> isl (ray_energy B (i - n))
      \<and> ray_vertex C i = ray_vertex B (i - n) \<and> ray_direction C i = ray_direction B (i - n)
      \<and> ray_energy C i = ray_energy B (i - n)" if "n \<le> i" and "i < n + m" for i
  proof -
    have im: "i - n < m" using that by simp
    have "column cv i = column v2 (i - n)" "column cd i = column d2 (i - n)"
      unfolding cv_def cd_def using sA sB vA vB that
      by (simp_all add: hstack_2d_column_right)
    moreover have "item ce i = item e2 (i - n)"
      using that im sA sB vA vB by (simp add: item_def ce_def nth_append valid_array_def)
    moreover have "\<not> isl (column v2 (i - n))" "\<not> isl (column d2 (i - n))"
        "\<not> isl (item e2 (i - n))"
      using im sB by (simp_all add: column_def item_def)
    ultimately show ?thesis
      by (simp add: ray_vertex_def ray_direction_def ray_energy_def get_vertices_def
          get_directions_def get_energy_def B C_def)
  qed
  from sum pop nums left right show ?thesis by blast
qed

text \<open>Claim C1 at a bundle of one ray and a bundle of two.\<close>

theorem add_concatenates_witness:
  "populated \<lparr>vertices = Some \<lparr>shape = [3, 1], data = [1, 2, 3 :: int]\<rparr>,
              direct = Some \<lparr>shape = [3, 1], data = [0, 0, 1]\<rparr>,
              energy = Some \<lparr>shape = [1], data = [5]\<rparr>\<rparr> 1
   \<and> populated \<lparr>vertices = Some \<lparr>shape = [3, 2], data = [4, 5, 6, 7, 8, 9 :: int]\<rparr>,
              direct = Some \<lparr>shape = [3, 2], data = [0, 1, 1, 0, 0, 0]\<rparr>,
              energy = Some \<lparr>shape = [2], data = [6, 7]\<rparr>\<rparr> 2
   \<and> (\<exists>C. add \<lparr>vertices = Some \<lparr>shape = [3, 1], data = [1, 2, 3 :: int]\<rparr>,
              direct = Some \<lparr>shape = [3, 1], data = [0, 0, 1]\<rparr>,
              energy = Some \<lparr>shape = [1], data = [5]\<rparr>\<rparr>
            \<lparr>vertices = Some \<lparr>shape = [3, 2], data = [4, 5, 6, 7, 8, 9 :: int]\<rparr>,
              direct = Some \<lparr>shape = [3, 2], data = [0, 1, 1, 0, 0, 0]\<rparr>,
              energy = Some \<lparr>shape = [2], data = [6, 7]\<rparr>\<rparr> = Inr C
        \<and> get_num_rays C = Inr 3
        \<and> ray_vertex C 0 = Inr [1, 2, 3] \<and> ray_energy C 0 = Inr 5
        \<and> ray_vertex C 2 = Inr [5, 7, 9] \<and> ray_direction C 2 = Inr [1, 0, 0])"
proof -
  let ?A = "\<lparr>vertices = Some \<lparr>shape = [3, 1], data = [1, 2, 3 :: int]\<rparr>,
              direct = Some \<lparr>shape = [3, 1], data = [0, 0, 1]\<rparr>,
              energy = Some \<lparr>shape = [1], data = [5]\<rparr>\<rparr>"
  let ?B = "\<lparr>vertices = Some \<lparr>shape = [3, 2], data = [4, 5, 6, 7, 8, 9 :: int]\<rparr>,
              direct = Some \<lparr>shape = [3, 2], data = [0, 1, 1, 0, 0, 0]\<rparr>,
              energy = Some \<lparr>shape = [2], data = [6, 7]\<rparr>\<rparr>"
  have pA: "populated ?A 1" and pB: "populated ?B 2"
    by (simp_all add: populated_def valid_array_def)
  from add_concatenates [OF pA pB] obtain C where sum: "add ?A ?B = Inr C"
    and num: "get_num_rays C = Inr (1 + 2)"
    and left: "\<forall>i<1. ray_vertex C i = ray_vertex ?A i \<and> ray_energy C i = ray_energy ?A i"
    and right: "\<forall>i. 1 \<le> i \<and> i < 1 + 2 \<longrightarrow>
       ray_vertex C i = ray_vertex ?B (i - 1) \<and> ray_direction C i = ray_direction ?B (i - 1)"
    by blast
  from left have "ray_vertex C 0 = ray_vertex ?A 0" "ray_energy C 0 = ray_energy ?A 0"
    by simp_all
  moreover from right have "ray_vertex C 2 = ray_vertex ?B 1"
      "ray_direction C 2 = ray_direction ?B 1"
    by simp_all
  moreover have "ray_vertex ?A 0 = Inr [1, 2, 3]" "ray_energy ?A 0 = Inr 5"
      "ray_vertex ?B 1 = Inr [5, 7, 9]" "ray_direction ?B 1 = Inr [1, 0, 0]"
    by (simp_all add: ray_vertex_def ray_direction_def ray_energy_def get_vertices_def
        get_directions_def get_energy_def column_def item_def upt_rec)
  ultimately show ?thesis using pA pB sum num by auto
qed

text \<open>
  Claim C2. \<open>empty_bund\<close> returns a populated bundle of no rays, and adding a
  populated bundle \<open>A\<close> to it returns \<open>A\<close>: the same three arrays, shape and elements.
\<close>

theorem empty_bund_left_identity:
  assumes "populated A n"
  shows "\<exists>E. empty_bund self = Inr E \<and> populated E 0 \<and> add E A = Inr A"
proof -
  from assms obtain v d e
    where A: "A = \<lparr>vertices = Some v, direct = Some d, energy = Some e\<rparr>"
      and sA: "shape v = [3, n]" "shape d = [3, n]" "shape e = [n]"
      and vA: "valid_array v" "valid_array d" "valid_array e"
    by (rule populatedD)
  define E :: "'a RayBundle" where "E = \<lparr>vertices = Some \<lparr>shape = [3, 0], data = []\<rparr>,
    direct = Some \<lparr>shape = [3, 0], data = []\<rparr>, energy = Some \<lparr>shape = [0], data = []\<rparr>\<rparr>"
  have mk: "empty_bund self = Inr E"
    by (simp add: empty_bund_def and_then_def set_vertices_def set_directions_def
        set_energy_def get_num_rays_def RayBundle_new_def E_def)
  have pop: "populated E 0"
    by (simp add: populated_def E_def valid_array_def)
  have rows: "concat (map (\<lambda>i. block \<lparr>shape = [3, 0], data = []\<rparr> i @ block a i) [0..<3]) = data a"
    if "shape a = [3, n]" and "valid_array a" for a :: "'a ndarray"
  proof -
    have "concat (map (\<lambda>i. take n (drop (i * n) (data a))) [0..<3]) = data a"
      using that by (intro concat_take_drop) (simp add: valid_array_def)
    then show ?thesis using that by (simp add: block_def)
  qed
  have "add E A = Inr \<lparr>vertices = Some \<lparr>shape = [3, 0 + n],
                    data = concat (map (\<lambda>i. block \<lparr>shape = [3, 0], data = []\<rparr> i @ block v i) [0..<3])\<rparr>,
                 direct = Some \<lparr>shape = [3, 0 + n],
                    data = concat (map (\<lambda>i. block \<lparr>shape = [3, 0], data = []\<rparr> i @ block d i) [0..<3])\<rparr>,
                 energy = Some \<lparr>shape = [0 + n], data = data \<lparr>shape = [0], data = []\<rparr> @ data e\<rparr>\<rparr>"
    unfolding E_def A using sA by (intro add_populated) simp_all
  also have "\<dots> = Inr A"
    using sA vA by (simp add: rows A)
  finally show ?thesis using mk pop by blast
qed

text \<open>Claim C2 at a bundle of two rays.\<close>

theorem empty_bund_left_identity_witness:
  "populated \<lparr>vertices = Some \<lparr>shape = [3, 2], data = [4, 5, 6, 7, 8, 9 :: int]\<rparr>,
              direct = Some \<lparr>shape = [3, 2], data = [0, 1, 1, 0, 0, 0]\<rparr>,
              energy = Some \<lparr>shape = [2], data = [6, 7]\<rparr>\<rparr> 2
   \<and> (\<exists>E. empty_bund RayBundle_new = Inr E
        \<and> add E \<lparr>vertices = Some \<lparr>shape = [3, 2], data = [4, 5, 6, 7, 8, 9 :: int]\<rparr>,
              direct = Some \<lparr>shape = [3, 2], data = [0, 1, 1, 0, 0, 0]\<rparr>,
              energy = Some \<lparr>shape = [2], data = [6, 7]\<rparr>\<rparr>
          = Inr \<lparr>vertices = Some \<lparr>shape = [3, 2], data = [4, 5, 6, 7, 8, 9 :: int]\<rparr>,
              direct = Some \<lparr>shape = [3, 2], data = [0, 1, 1, 0, 0, 0]\<rparr>,
              energy = Some \<lparr>shape = [2], data = [6, 7]\<rparr>\<rparr>)"
proof -
  let ?B = "\<lparr>vertices = Some \<lparr>shape = [3, 2], data = [4, 5, 6, 7, 8, 9 :: int]\<rparr>,
              direct = Some \<lparr>shape = [3, 2], data = [0, 1, 1, 0, 0, 0]\<rparr>,
              energy = Some \<lparr>shape = [2], data = [6, 7]\<rparr>\<rparr>"
  have pB: "populated ?B 2"
    by (simp add: populated_def valid_array_def)
  from empty_bund_left_identity [OF pB, of RayBundle_new] pB show ?thesis by blast
qed

text \<open>
  Claim C3. On a bundle whose vertices have \<open>n\<close> columns, \<open>set_directions\<close> raises
  \<open>ValueError\<close> for every array whose shape is not (3, n) and \<open>set_energy\<close> for every
  array whose shape is not (n,); with the matching shape each succeeds, and the getter
  then returns the array that was passed.
\<close>

theorem setters_check_ray_count:
  assumes "get_num_rays b = Inr n"
  shows "(shape d \<noteq> [3, n] \<longrightarrow> set_directions b d = Inl ValueError)
    \<and> (shape e \<noteq> [n] \<longrightarrow> set_energy b e = Inl ValueError)
    \<and> (shape d = [3, n] \<longrightarrow> (\<exists>b'. set_directions b d = Inr b' \<and> get_directions b' = Inr d))
    \<and> (shape e = [n] \<longrightarrow> (\<exists>b'. set_energy b e = Inr b' \<and> get_energy b' = Inr e))"
  using assms
  by (simp add: set_directions_def set_energy_def get_directions_def get_energy_def)

text \<open>Claim C3 at vertices of two columns: directions that fit, energies that do not.\<close>

theorem setters_check_ray_count_witness:
  "get_num_rays \<lparr>vertices = Some \<lparr>shape = [3, 2], data = [4, 5, 6, 7, 8, 9 :: int]\<rparr>,
                  direct = None, energy = None\<rparr> = Inr 2
   \<and> (\<exists>b'. set_directions
               \<lparr>vertices = Some \<lparr>shape = [3, 2], data = [4, 5, 6, 7, 8, 9 :: int]\<rparr>,
                 direct = None, energy = None\<rparr>
               \<lparr>shape = [3, 2], data = [0, 1, 1, 0, 0, 0]\<rparr> = Inr b'
          \<and> get_directions b' = Inr \<lparr>shape = [3, 2], data = [0, 1, 1, 0, 0, 0]\<rparr>)
   \<and> set_energy \<lparr>vertices = Some \<lparr>shape = [3, 2], data = [4, 5, 6, 7, 8, 9 :: int]\<rparr>,
                  direct = None, energy = None\<rparr>
                \<lparr>shape = [3], data = [6, 7, 8]\<rparr> = Inl ValueError"
proof -
  let ?b = "\<lparr>vertices = Some \<lparr>shape = [3, 2], data = [4, 5, 6, 7, 8, 9 :: int]\<rparr>,
             direct = None, energy = None\<rparr>"
  have n: "get_num_rays ?b = Inr 2"
    by (simp add: get_num_rays_def)
  from setters_check_ray_count [OF n, of "\<lparr>shape = [3, 2], data = [0, 1, 1, 0, 0, 0]\<rparr>"
      "\<lparr>shape = [3], data = [6, 7, 8]\<rparr>"] n
  show ?thesis by simp
qed

text \<open>
  Claim C10. On a new bundle, whose vertices were never set, \<open>set_directions\<close> and
  \<open>set_energy\<close> raise for every array: \<open>get_num_rays\<close>, which they call to check
  the shape, reads the missing vertices. The call returns no bundle, so the bundle is
  the new one still, and its \<open>get_directions\<close> and \<open>get_energy\<close> raise as before.
\<close>

theorem unset_vertices_block_setters:
  "set_directions RayBundle_new d = Inl AttributeError
   \<and> set_energy RayBundle_new e = Inl AttributeError
   \<and> get_num_rays RayBundle_new = Inl AttributeError
   \<and> get_directions RayBundle_new = Inl AttributeError
   \<and> get_energy RayBundle_new = Inl AttributeError"
  by (simp add: set_directions_def set_energy_def get_num_rays_def get_directions_def
      get_energy_def RayBundle_new_def)

section \<open>The rejection loop\<close>

lemma put_values_length: "length (put_values k xs ms vs) = length xs"
  by (induction k xs ms vs rule: put_values.induct) simp_all

lemma put_values_all:
  "put_values k xs (replicate (length xs) True) vs
     = map (\<lambda>j. vs ! ((k + j) mod length vs)) [0..<length xs]"
proof (induction xs arbitrary: k)
  case Nil
  then show ?case by simp
next
  case (Cons x xs)
  have "map (\<lambda>j. vs ! ((k + j) mod length vs)) [0..<Suc (length xs)]
      = vs ! (k mod length vs) # map (\<lambda>j. vs ! ((Suc k + j) mod length vs)) [0..<length xs]"
    by (simp add: upt_conv_Cons map_Suc_upt [symmetric] del: upt_Suc)
  then show ?case using Cons.IH [of "Suc k"] by simp
qed

lemma put_values_first_pass:
  assumes "length vs = length xs"
  shows "put_values 0 xs (replicate (length xs) True) vs = vs"
proof -
  have "map (\<lambda>j. vs ! (j mod length vs)) [0..<length vs] = map (\<lambda>j. vs ! j) [0..<length vs]"
    by (intro map_cong) simp_all
  then have "map (\<lambda>j. vs ! (j mod length vs)) [0..<length vs] = vs"
    by (simp add: map_nth)
  moreover have "put_values 0 xs (replicate (length xs) True) vs
      = map (\<lambda>j. vs ! ((0 + j) mod length vs)) [0..<length xs]"
    by (rule put_values_all)
  ultimately show ?thesis using assms by simp
qed

lemma masked_assign_first_pass:
  assumes "length vs = length xs"
  shows "masked_assign rule xs (replicate (length xs) True) vs = Inr vs"
  using assms by (simp add: masked_assign_def put_values_first_pass)

lemma masked_assign_length:
  "masked_assign rule xs ms vs = Inr xs' \<Longrightarrow> length xs' = length xs"
  by (auto simp: masked_assign_def put_values_length split: if_splits)

text \<open>
  Where the two rules part: two values for one selected slot, as in a pass of the loop
  that redraws one ray of two.
\<close>

lemma masked_assign_rules_differ:
  "masked_assign Strict [0, 0 :: real] [False, True] [1, 2] = Inl ValueError"
  "masked_assign Cyclic [0, 0 :: real] [False, True] [1, 2] = Inr [0, 1]"
  by (simp_all add: masked_assign_def)

lemma uniform_length: "length (fst (uniform low high n g)) = n"
  by (simp add: uniform_def)


lemma loop_body_first_pass:
  assumes "length xs = n" and "length ys = n"
  shows "loop_body rule radius (replicate n True) xs ys g =
     Inr (map2 (\<lambda>x y. x\<^sup>2 + y\<^sup>2 > radius\<^sup>2)
            (fst (uniform (- radius) radius n g))
            (fst (uniform (- radius) radius n (snd (uniform (- radius) radius n g)))),
          fst (uniform (- radius) radius n g),
          fst (uniform (- radius) radius n (snd (uniform (- radius) radius n g))),
          snd (uniform (- radius) radius n (snd (uniform (- radius) radius n g))))"
proof -
  have x: "masked_assign rule xs (replicate n True) (fst (uniform (- radius) radius n g))
      = Inr (fst (uniform (- radius) radius n g))"
    using masked_assign_first_pass [of "fst (uniform (- radius) radius n g)" xs rule] assms(1)
    by (simp add: uniform_length)
  have y: "masked_assign rule ys (replicate n True) vy = Inr vy" if "length vy = n" for vy
    using masked_assign_first_pass [of vy ys rule] assms(2) that by simp
  show ?thesis
    by (simp add: loop_body_def split_beta and_then_def x y uniform_length)
qed

lemma loop_body_lengths:
  assumes "loop_body rule radius not_inside xs ys g = Inr (not_inside', xs', ys', g')"
  shows "length xs' = length xs \<and> length ys' = length ys
    \<and> not_inside' = map2 (\<lambda>x y. x\<^sup>2 + y\<^sup>2 > radius\<^sup>2) xs' ys'"
  using assms
  by (auto simp: loop_body_def split_beta and_then_def dest: masked_assign_length
      split: sum.splits)

lemma rejection_loop_invariant:
  assumes "rejection_loop rule radius not_inside xs ys g = Some res"
    and "length xs = length not_inside" and "length ys = length not_inside"
    and "not_inside = map2 (\<lambda>x y. x\<^sup>2 + y\<^sup>2 > radius\<^sup>2) xs ys \<or> not_inside = []"
  shows "case res of Inl e \<Rightarrow> True
    | Inr (xs', ys', g') \<Rightarrow> length xs' = length not_inside \<and> length ys' = length not_inside
        \<and> (\<forall>j<length not_inside. (xs' ! j)\<^sup>2 + (ys' ! j)\<^sup>2 \<le> radius\<^sup>2)"
  using assms
proof (induction rule: rejection_loop.raw_induct [rotated 1, consumes 1])
  case (1 rejection_loop rule radius not_inside xs ys g res)
  have lx: "length xs = length not_inside" and ly: "length ys = length not_inside"
    and inv: "not_inside = map2 (\<lambda>x y. x\<^sup>2 + y\<^sup>2 > radius\<^sup>2) xs ys \<or> not_inside = []"
    using "1.prems" by simp_all
  show ?case
  proof (cases "True \<in> set not_inside")
    case False
    with "1.hyps" have res: "res = Inr (xs, ys, g)" by simp
    have "(xs ! j)\<^sup>2 + (ys ! j)\<^sup>2 \<le> radius\<^sup>2" if "j < length not_inside" for j
    proof -
      from inv that have ni: "not_inside = map2 (\<lambda>x y. x\<^sup>2 + y\<^sup>2 > radius\<^sup>2) xs ys"
        by auto
      have "not_inside ! j \<in> set not_inside" using that by simp
      with False have "\<not> not_inside ! j" by metis
      moreover have "not_inside ! j = ((xs ! j)\<^sup>2 + (ys ! j)\<^sup>2 > radius\<^sup>2)"
        using that lx ly by (subst ni) simp
      ultimately show ?thesis by simp
    qed
    with res lx ly show ?thesis by simp
  next
    case True
    show ?thesis
    proof (cases "loop_body rule radius not_inside xs ys g")
      case (Inl e)
      with True "1.hyps" have "res = Inl e" by simp
      then show ?thesis by simp
    next
      case (Inr st)
      obtain ni1 xs1 ys1 g1 where st: "st = (ni1, xs1, ys1, g1)"
        by (cases st) auto
      from Inr st have body: "loop_body rule radius not_inside xs ys g = Inr (ni1, xs1, ys1, g1)"
        by simp
      with True "1.hyps" have rest: "rejection_loop rule radius ni1 xs1 ys1 g1 = Some res"
        by simp
      from loop_body_lengths [OF body] have l: "length xs1 = length xs" "length ys1 = length ys"
        and ni1: "ni1 = map2 (\<lambda>x y. x\<^sup>2 + y\<^sup>2 > radius\<^sup>2) xs1 ys1"
        by simp_all
      have len: "length ni1 = length not_inside"
        using l lx ly by (simp add: ni1)
      have "case res of Inl e \<Rightarrow> True
        | Inr (xs', ys', g') \<Rightarrow> length xs' = length ni1 \<and> length ys' = length ni1
            \<and> (\<forall>j<length ni1. (xs' ! j)\<^sup>2 + (ys' ! j)\<^sup>2 \<le> radius\<^sup>2)"
      proof (rule "1.IH" [OF rest])
        show "length xs1 = length ni1" using l lx len by simp
        show "length ys1 = length ni1" using l ly len by simp
        show "ni1 = map2 (\<lambda>x y. x\<^sup>2 + y\<^sup>2 > radius\<^sup>2) xs1 ys1 \<or> ni1 = []"
          using ni1 by simp
      qed
      then show ?thesis unfolding len .
    qed
  qed
qed

lemma rejection_loop_inside:
  assumes "rejection_loop rule radius (replicate n True) (replicate n 0) (replicate n 0) g
      = Some (Inr (xs', ys', g'))"
  shows "length xs' = n \<and> length ys' = n \<and> (\<forall>j<n. (xs' ! j)\<^sup>2 + (ys' ! j)\<^sup>2 \<le> radius\<^sup>2)"
proof (cases "n = 0")
  case True
  with rejection_loop_invariant [OF assms] show ?thesis by simp
next
  case False
  have first: "loop_body rule radius (replicate n True) (replicate n 0) (replicate n 0) g =
     Inr (map2 (\<lambda>x y. x\<^sup>2 + y\<^sup>2 > radius\<^sup>2)
            (fst (uniform (- radius) radius n g))
            (fst (uniform (- radius) radius n (snd (uniform (- radius) radius n g)))),
          fst (uniform (- radius) radius n g),
          fst (uniform (- radius) radius n (snd (uniform (- radius) radius n g))),
          snd (uniform (- radius) radius n (snd (uniform (- radius) radius n g))))"
    by (rule loop_body_first_pass) simp_all
  from assms False first
  have rest: "rejection_loop rule radius
      (map2 (\<lambda>x y. x\<^sup>2 + y\<^sup>2 > radius\<^sup>2)
            (fst (uniform (- radius) radius n g))
            (fst (uniform (- radius) radius n (snd (uniform (- radius) radius n g)))))
      (fst (uniform (- radius) radius n g))
      (fst (uniform (- radius) radius n (snd (uniform (- radius) radius n g))))
      (snd (uniform (- radius) radius n (snd (uniform (- radius) radius n g))))
      = Some (Inr (xs', ys', g'))"
    by (subst (asm) rejection_loop.simps) (simp add: split_beta)
  from rejection_loop_invariant [OF rest] show ?thesis
    by (simp add: uniform_length)
qed

section \<open>What the generator returns\<close>

lemma column_array_of_columns:
  assumes "j < length cols"
  shows "column (array_of_columns cols) j = Inr (vec_list (cols ! j))"
proof -
  obtain a b c where c: "cols ! j = (a, b, c)" by (cases "cols ! j") auto
  have "[0..<3] = [0, 1, 2]" by (simp add: upt_rec)
  then show ?thesis using assms c
    by (simp add: column_def array_of_columns_def nth_append)
qed

lemma rejection_loop_accepts_first_pass:
  assumes "\<forall>j<n. (fst (uniform (- radius) radius n g) ! j)\<^sup>2
      + (fst (uniform (- radius) radius n (snd (uniform (- radius) radius n g))) ! j)\<^sup>2
      \<le> radius\<^sup>2"
  shows "rejection_loop rule radius (replicate n True) (replicate n 0) (replicate n 0) g
    = Some (Inr (fst (uniform (- radius) radius n g),
         fst (uniform (- radius) radius n (snd (uniform (- radius) radius n g))),
         snd (uniform (- radius) radius n (snd (uniform (- radius) radius n g)))))"
proof (cases "n = 0")
  case True
  then show ?thesis
    by (subst rejection_loop.simps) (simp add: uniform_def)
next
  case False
  define vx where "vx = fst (uniform (- radius) radius n g)"
  define vy where "vy = fst (uniform (- radius) radius n (snd (uniform (- radius) radius n g)))"
  define g2 where "g2 = snd (uniform (- radius) radius n (snd (uniform (- radius) radius n g)))"
  have len: "length vx = n" "length vy = n"
    by (simp_all add: vx_def vy_def uniform_length)
  have first: "loop_body rule radius (replicate n True) (replicate n 0) (replicate n 0) g =
     Inr (map2 (\<lambda>x y. x\<^sup>2 + y\<^sup>2 > radius\<^sup>2) vx vy, vx, vy, g2)"
    unfolding vx_def vy_def g2_def by (rule loop_body_first_pass) simp_all
  have none: "True \<notin> set (map2 (\<lambda>x y. x\<^sup>2 + y\<^sup>2 > radius\<^sup>2) vx vy)"
  proof
    assume "True \<in> set (map2 (\<lambda>x y. x\<^sup>2 + y\<^sup>2 > radius\<^sup>2) vx vy)"
    then obtain j where j: "j < n" and out: "(vx ! j)\<^sup>2 + (vy ! j)\<^sup>2 > radius\<^sup>2"
      using len by (auto simp: in_set_conv_nth)
    from assms j have "(vx ! j)\<^sup>2 + (vy ! j)\<^sup>2 \<le> radius\<^sup>2"
      unfolding vx_def vy_def by blast
    with out show False by simp
  qed
  have stop: "rejection_loop rule radius (map2 (\<lambda>x y. x\<^sup>2 + y\<^sup>2 > radius\<^sup>2) vx vy) vx vy g2
      = Some (Inr (vx, vy, g2))"
    using none by (subst rejection_loop.simps) simp
  have "rejection_loop rule radius (replicate n True) (replicate n 0) (replicate n 0) g
      = Some (Inr (vx, vy, g2))"
    using False first stop by (subst rejection_loop.simps) simp
  then show ?thesis by (simp add: vx_def vy_def g2_def)
qed

lemma solar_disk_bundle_of_loop:
  assumes "rejection_loop rule radius (replicate n True) (replicate n 0) (replicate n 0)
      (snd (uniform 0 ang n (snd (uniform 0 (2 * pi) n g)))) = Some (Inr (xs, ys, g'))"
  shows "solar_disk_bundle gar rule g n center direction radius ang =
    Some (Inr (\<lparr>vertices = Some (array_of_columns
                   (global_vertices (perp_axis direction) direction center xs ys)),
                direct = Some (array_of_columns
                   (ray_directions gar direction (perp_axis direction)
                      (fst (uniform 0 (2 * pi) n g))
                      (fst (uniform 0 ang n (snd (uniform 0 (2 * pi) n g)))) n)),
                energy = None\<rparr>, g'))"
proof -
  from rejection_loop_inside [OF assms] have "length xs = n" "length ys = n" by simp_all
  then have "length (global_vertices (perp_axis direction) direction center xs ys) = n"
    by (simp add: global_vertices_def)
  moreover have "length (ray_directions gar direction (perp_axis direction)
      (fst (uniform 0 (2 * pi) n g)) (fst (uniform 0 ang n (snd (uniform 0 (2 * pi) n g)))) n) = n"
    by (simp add: ray_directions_def)
  ultimately show ?thesis using assms
    by (simp add: solar_disk_bundle_def split_beta Let_def set_vertices_def set_directions_def
        get_num_rays_def RayBundle_new_def array_of_columns_def)
qed

lemma solar_disk_bundle_returnsD:
  assumes "solar_disk_bundle gar rule g n center direction radius ang = Some (Inr (b, g'))"
  obtains xs ys where
    "rejection_loop rule radius (replicate n True) (replicate n 0) (replicate n 0)
      (snd (uniform 0 ang n (snd (uniform 0 (2 * pi) n g)))) = Some (Inr (xs, ys, g'))"
    and "length xs = n" and "length ys = n"
    and "\<forall>j<n. (xs ! j)\<^sup>2 + (ys ! j)\<^sup>2 \<le> radius\<^sup>2"
    and "b = \<lparr>vertices = Some (array_of_columns
                   (global_vertices (perp_axis direction) direction center xs ys)),
              direct = Some (array_of_columns
                   (ray_directions gar direction (perp_axis direction)
                      (fst (uniform 0 (2 * pi) n g))
                      (fst (uniform 0 ang n (snd (uniform 0 (2 * pi) n g)))) n)),
              energy = None\<rparr>"
proof -
  from assms obtain xs ys g3 where loop:
    "rejection_loop rule radius (replicate n True) (replicate n 0) (replicate n 0)
      (snd (uniform 0 ang n (snd (uniform 0 (2 * pi) n g)))) = Some (Inr (xs, ys, g3))"
    by (auto simp: solar_disk_bundle_def split_beta Let_def split: option.splits sum.splits)
  from solar_disk_bundle_of_loop [OF loop, of gar center direction] assms
  have b: "b = \<lparr>vertices = Some (array_of_columns
                   (global_vertices (perp_axis direction) direction center xs ys)),
              direct = Some (array_of_columns
                   (ray_directions gar direction (perp_axis direction)
                      (fst (uniform 0 (2 * pi) n g))
                      (fst (uniform 0 ang n (snd (uniform 0 (2 * pi) n g)))) n)),
              energy = None\<rparr>" and g: "g3 = g'"
    by simp_all
  from rejection_loop_inside [OF loop] loop b g show ?thesis
    by (intro that [of xs ys]) simp_all
qed

section \<open>Geometry of the disk and the rotation primitive\<close>

lemma uniform_constant_rng:
  "uniform low high n (constant_rng u) = (replicate n (low + (high - low) * u), constant_rng u)"
  by (simp add: uniform_def constant_rng_def map_replicate_const)

lemma uniform_zero_width: "fst (uniform c c n g) = replicate n c"
  by (simp add: uniform_def map_replicate_const)

lemma global_vertices_nth:
  assumes "j < length xs" and "j < length ys"
  shows "global_vertices perp direction center xs ys ! j
    = vec_add (mat_vec (perp, cross direction perp, direction) (xs ! j, ys ! j, 0)) center"
  using assms by (simp add: global_vertices_def)

lemma disk_point_bound:
  assumes unit: "inner d d = 1" and inside: "x\<^sup>2 + y\<^sup>2 \<le> r\<^sup>2"
  shows "inner (mat_vec (perp_axis d, cross d (perp_axis d), d) (x, y, 0))
               (mat_vec (perp_axis d, cross d (perp_axis d), d) (x, y, 0)) \<le> r\<^sup>2"
proof -
  obtain a b c where d: "d = (a, b, c)" by (cases d) auto
  from unit d have u: "a\<^sup>2 + b\<^sup>2 + c\<^sup>2 = 1" by (simp add: power2_eq_square)
  show ?thesis
  proof (cases "a = 0 \<and> b = 0")
    case True
    with u have c: "c\<^sup>2 = 1" by simp
    have "inner (mat_vec (perp_axis d, cross d (perp_axis d), d) (x, y, 0))
               (mat_vec (perp_axis d, cross d (perp_axis d), d) (x, y, 0)) = x\<^sup>2 + c\<^sup>2 * y\<^sup>2"
      using True d by (simp add: power2_eq_square algebra_simps)
    also have "\<dots> = x\<^sup>2 + y\<^sup>2" unfolding c by simp
    also have "\<dots> \<le> r\<^sup>2" by (rule inside)
    finally show ?thesis .
  next
    case False
    then have perp: "perp_axis d = (b, - a, 0)" using d by auto
    let ?p = "a * x + b * y" and ?q = "b * x - a * y"
    have w: "inner (mat_vec (perp_axis d, cross d (perp_axis d), d) (x, y, 0))
               (mat_vec (perp_axis d, cross d (perp_axis d), d) (x, y, 0))
          = ?q\<^sup>2 + ?p\<^sup>2 + c\<^sup>2 * ?p\<^sup>2"
      unfolding perp by (simp add: d power2_eq_square algebra_simps)
    have split: "?q\<^sup>2 + ?p\<^sup>2 = (a\<^sup>2 + b\<^sup>2) * (x\<^sup>2 + y\<^sup>2)"
      by (simp add: power2_eq_square algebra_simps)
    have ab: "a\<^sup>2 + b\<^sup>2 = 1 - c\<^sup>2" using u by simp
    have "?p\<^sup>2 \<le> ?q\<^sup>2 + ?p\<^sup>2" by simp
    also have "\<dots> = (1 - c\<^sup>2) * (x\<^sup>2 + y\<^sup>2)" using split ab by simp
    also have "\<dots> \<le> 1 * (x\<^sup>2 + y\<^sup>2)" by (intro mult_right_mono) simp_all
    finally have p: "?p\<^sup>2 \<le> x\<^sup>2 + y\<^sup>2" by simp
    have "?q\<^sup>2 + ?p\<^sup>2 + c\<^sup>2 * ?p\<^sup>2 = (1 - c\<^sup>2) * (x\<^sup>2 + y\<^sup>2) + c\<^sup>2 * ?p\<^sup>2"
      using split ab by simp
    also have "\<dots> \<le> (1 - c\<^sup>2) * (x\<^sup>2 + y\<^sup>2) + c\<^sup>2 * (x\<^sup>2 + y\<^sup>2)"
      using p by (intro add_left_mono mult_left_mono) simp_all
    also have "\<dots> = x\<^sup>2 + y\<^sup>2" by (simp add: algebra_simps)
    finally show ?thesis using w inside by simp
  qed
qed

lemma plane_projection_shorter:
  assumes "inner d d = 1"
  shows "inner (plane_projection d w) (plane_projection d w) \<le> inner w w"
proof -
  obtain a b c where d: "d = (a, b, c)" by (cases d) auto
  obtain x y z where w: "w = (x, y, z)" by (cases w) auto
  let ?k = "inner w d"
  have "inner (plane_projection d w) (plane_projection d w)
      = inner w w - 2 * ?k * inner w d + ?k\<^sup>2 * inner d d"
    unfolding d w by (simp add: plane_projection_def power2_eq_square algebra_simps)
  also have "\<dots> = inner w w - ?k\<^sup>2" using assms by (simp add: power2_eq_square)
  also have "\<dots> \<le> inner w w" by simp
  finally show ?thesis .
qed

lemma vec_norm_le:
  assumes "inner v v \<le> r\<^sup>2" and "0 \<le> r"
  shows "vec_norm v \<le> r"
proof -
  have "sqrt (inner v v) \<le> sqrt (r\<^sup>2)" using assms(1) by (rule real_sqrt_le_mono)
  then show ?thesis using assms(2) by (simp add: vec_norm_def)
qed

lemma vec_add_sub: "vec_sub (vec_add v c) c = v"
  by (cases v; cases c) simp

lemma axis_angle_rotation_zero: "mat_vec (axis_angle_rotation axis 0) v = v"
  by (cases axis; cases v) simp

lemma axis_angle_rotation_axis:
  assumes "inner axis axis = 1"
  shows "mat_vec (axis_angle_rotation axis angle) axis = axis"
proof -
  obtain x y z where a: "axis = (x, y, z)" by (cases axis) auto
  from assms a have u: "x * x + y * y + z * z = 1" by simp
  let ?c = "cos angle" and ?s = "sin angle"
  have "x * (x * x * (1 - ?c) + ?c) + y * (x * y * (1 - ?c) - z * ?s) + z * (x * z * (1 - ?c) + y * ?s)
      = x * (x * x + y * y + z * z) * (1 - ?c) + x * ?c"
    by (simp add: algebra_simps)
  moreover have "x * (y * x * (1 - ?c) + z * ?s) + y * (y * y * (1 - ?c) + ?c) + z * (y * z * (1 - ?c) - x * ?s)
      = y * (x * x + y * y + z * z) * (1 - ?c) + y * ?c"
    by (simp add: algebra_simps)
  moreover have "x * (z * x * (1 - ?c) - y * ?s) + y * (z * y * (1 - ?c) + x * ?s) + z * (z * z * (1 - ?c) + ?c)
      = z * (x * x + y * y + z * z) * (1 - ?c) + z * ?c"
    by (simp add: algebra_simps)
  ultimately show ?thesis unfolding a u
    by (simp add: Let_def algebra_simps)
qed

lemma constant_rng_returns:
  assumes "2 * (2 * u - 1)\<^sup>2 \<le> 1"
  shows "\<exists>b. solar_disk_bundle gar rule (constant_rng u) n center direction radius ang
    = Some (Inr (b, constant_rng u))"
proof -
  let ?x = "- radius + (radius - - radius) * u"
  have x: "?x\<^sup>2 + ?x\<^sup>2 = radius\<^sup>2 * (2 * (2 * u - 1)\<^sup>2)"
    by (simp add: power2_eq_square algebra_simps)
  have "radius\<^sup>2 * (2 * (2 * u - 1)\<^sup>2) \<le> radius\<^sup>2 * 1"
    using assms by (intro mult_left_mono) simp_all
  with x have inside: "?x\<^sup>2 + ?x\<^sup>2 \<le> radius\<^sup>2" by simp
  have "rejection_loop rule radius (replicate n True) (replicate n 0) (replicate n 0) (constant_rng u)
    = Some (Inr (fst (uniform (- radius) radius n (constant_rng u)),
         fst (uniform (- radius) radius n (snd (uniform (- radius) radius n (constant_rng u)))),
         snd (uniform (- radius) radius n (snd (uniform (- radius) radius n (constant_rng u))))))"
    using inside by (intro rejection_loop_accepts_first_pass) (simp add: uniform_constant_rng)
  then have "rejection_loop rule radius (replicate n True) (replicate n 0) (replicate n 0)
      (snd (uniform 0 ang n (snd (uniform 0 (2 * pi) n (constant_rng u)))))
    = Some (Inr (replicate n ?x, replicate n ?x, constant_rng u))"
    by (simp add: uniform_constant_rng)
  from solar_disk_bundle_of_loop [OF this] show ?thesis by blast
qed

section \<open>Properties of the disk source\<close>

text \<open>
  Claim C8. With \<open>num_rays = 0\<close> the generator returns, for every center, direction,
  radius and angular range: a bundle of no rays whose vertices and directions have
  shape (3, 0) and whose energy is unset. The rejection loop ends without a pass, and
  the random generator is left in the state it was in: nothing was drawn.
\<close>

theorem no_rays_empty_bundle:
  "solar_disk_bundle gar rule g 0 center direction radius ang
     = Some (Inr (\<lparr>vertices = Some \<lparr>shape = [3, 0], data = []\<rparr>,
                   direct = Some \<lparr>shape = [3, 0], data = []\<rparr>,
                   energy = None\<rparr>, g))
   \<and> get_num_rays \<lparr>vertices = Some \<lparr>shape = [3, 0], data = [] :: real list\<rparr>,
                   direct = Some \<lparr>shape = [3, 0], data = []\<rparr>,
                   energy = None\<rparr> = Inr 0
   \<and> rejection_loop rule radius [] [] [] g = Some (Inr ([], [], g))"
proof -
  have loop: "rejection_loop rule radius [] [] [] g = Some (Inr ([], [], g))"
    by (subst rejection_loop.simps) simp
  have "rejection_loop rule radius (replicate 0 True) (replicate 0 0) (replicate 0 0)
      (snd (uniform 0 ang 0 (snd (uniform 0 (2 * pi) 0 g)))) = Some (Inr ([], [], g))"
    using loop by (simp add: uniform_def)
  from solar_disk_bundle_of_loop [OF this, of gar center direction] loop show ?thesis
    by (simp add: array_of_columns_def global_vertices_def ray_directions_def get_num_rays_def)
qed

text \<open>
  Claim C7. With \<open>radius = 0\<close> the generator returns, for every number of rays,
  direction and state of the random generator (the rejection loop ends after its first
  pass), and every vertex of the bundle is \<open>center\<close>.
\<close>

theorem zero_radius_vertices_at_center:
  "\<exists>b g'. solar_disk_bundle gar rule g n center direction 0 ang = Some (Inr (b, g'))
     \<and> get_num_rays b = Inr n
     \<and> (\<forall>j<n. ray_vertex b j = Inr (vec_list center))"
proof -
  define g2 where "g2 = snd (uniform 0 ang n (snd (uniform 0 (2 * pi) n g)))"
  define g' where "g' = snd (uniform (- 0) 0 n (snd (uniform (- 0) 0 n g2)))"
  have "rejection_loop rule 0 (replicate n True) (replicate n 0) (replicate n 0) g2
    = Some (Inr (fst (uniform (- 0) 0 n g2),
         fst (uniform (- 0) 0 n (snd (uniform (- 0) 0 n g2))),
         snd (uniform (- 0) 0 n (snd (uniform (- 0) 0 n g2)))))"
    by (intro rejection_loop_accepts_first_pass) (simp add: uniform_def)
  then have loop: "rejection_loop rule 0 (replicate n True) (replicate n 0) (replicate n 0)
      (snd (uniform 0 ang n (snd (uniform 0 (2 * pi) n g))))
    = Some (Inr (replicate n 0, replicate n 0, g'))"
    by (simp add: uniform_zero_width g2_def g'_def)
  define b where "b = \<lparr>vertices = Some (array_of_columns
                   (global_vertices (perp_axis direction) direction center
                      (replicate n 0) (replicate n 0))),
                direct = Some (array_of_columns
                   (ray_directions gar direction (perp_axis direction)
                      (fst (uniform 0 (2 * pi) n g))
                      (fst (uniform 0 ang n (snd (uniform 0 (2 * pi) n g)))) n)),
                energy = None\<rparr>"
  have ret: "solar_disk_bundle gar rule g n center direction 0 ang = Some (Inr (b, g'))"
    unfolding b_def by (rule solar_disk_bundle_of_loop [OF loop])
  have zero: "mat_vec m (0, 0, 0) = (0, 0, 0)" for m
    by (cases m rule: prod_cases3) (auto simp: split_paired_all)
  have verts: "global_vertices (perp_axis direction) direction center
      (replicate n 0) (replicate n 0) = replicate n center"
    by (cases center) (simp add: global_vertices_def zip_replicate zero)
  have num: "get_num_rays b = Inr n"
    by (simp add: get_num_rays_def b_def array_of_columns_def verts)
  have "ray_vertex b j = Inr (vec_list center)" if "j < n" for j
    using that column_array_of_columns [of j "replicate n center"]
    by (simp add: ray_vertex_def get_vertices_def b_def verts)
  with ret num show ?thesis by blast
qed

text \<open>Claim C7 at two rays.\<close>

theorem zero_radius_vertices_at_center_witness:
  "\<exists>b g'. solar_disk_bundle axis_angle_rotation Strict (constant_rng (1 / 3)) 2
             (1, 2, 3) (0, 0, 1) 0 (1 / 2) = Some (Inr (b, g'))
     \<and> get_num_rays b = Inr 2
     \<and> ray_vertex b 0 = Inr [1, 2, 3] \<and> ray_vertex b 1 = Inr [1, 2, 3]"
  using zero_radius_vertices_at_center [of axis_angle_rotation Strict "constant_rng (1 / 3)" 2
      "(1, 2, 3)" "(0, 0, 1)" "1 / 2"]
  by fastforce

text \<open>
  Claim C6. With \<open>ang_range = 0\<close> and a unit \<open>direction\<close>, every direction of the
  returned bundle is \<open>direction\<close>. The rotation primitive is taken to turn nothing by
  the angle 0 and to leave a unit axis where it is, as a rotation around an axis does;
  over the reals the directions are then equal, not only close.
\<close>

theorem zero_ang_range_directions:
  assumes "solar_disk_bundle gar rule g n center direction radius 0 = Some (Inr (b, g'))"
    and "inner direction direction = 1"
    and "\<And>axis v. mat_vec (gar axis 0) v = v"
    and "\<And>axis angle. inner axis axis = 1 \<Longrightarrow> mat_vec (gar axis angle) axis = axis"
  shows "get_num_rays b = Inr n \<and> (\<forall>j<n. ray_direction b j = Inr (vec_list direction))"
proof -
  from assms(1) obtain xs ys where len: "length xs = n" "length ys = n"
    and b: "b = \<lparr>vertices = Some (array_of_columns
                   (global_vertices (perp_axis direction) direction center xs ys)),
              direct = Some (array_of_columns
                   (ray_directions gar direction (perp_axis direction)
                      (fst (uniform 0 (2 * pi) n g))
                      (fst (uniform 0 0 n (snd (uniform 0 (2 * pi) n g)))) n)),
              energy = None\<rparr>"
    by (rule solar_disk_bundle_returnsD)
  have dirs: "ray_directions gar direction (perp_axis direction)
      (fst (uniform 0 (2 * pi) n g)) (fst (uniform 0 0 n (snd (uniform 0 (2 * pi) n g)))) n
      = replicate n direction"
  proof -
    have "map (\<lambda>ray. mat_vec (gar direction (fst (uniform 0 (2 * pi) n g) ! ray))
              (mat_vec (gar (perp_axis direction) (replicate n 0 ! ray)) direction)) [0..<n]
        = map (\<lambda>ray. direction) [0..<n]"
      using assms(2-4) by (intro map_cong) simp_all
    then show ?thesis
      by (simp add: ray_directions_def uniform_zero_width map_replicate_const)
  qed
  have num: "get_num_rays b = Inr n"
    using len by (simp add: get_num_rays_def b array_of_columns_def global_vertices_def)
  have "ray_direction b j = Inr (vec_list direction)" if "j < n" for j
    using that column_array_of_columns [of j "replicate n direction"]
    by (simp add: ray_direction_def get_directions_def b dirs)
  with num show ?thesis by blast
qed

text \<open>Claim C6 at two rays around the z axis, with the axis-angle matrix.\<close>

theorem zero_ang_range_directions_witness:
  "inner (0, 0, 1) (0, 0, 1) = 1
   \<and> (\<exists>b g'. solar_disk_bundle axis_angle_rotation Strict (constant_rng (3 / 4)) 2
             (1, 2, 3) (0, 0, 1) 2 0 = Some (Inr (b, g'))
        \<and> get_num_rays b = Inr 2
        \<and> ray_direction b 0 = Inr [0, 0, 1] \<and> ray_direction b 1 = Inr [0, 0, 1])"
proof -
  obtain b where ret: "solar_disk_bundle axis_angle_rotation Strict (constant_rng (3 / 4)) 2
      (1, 2, 3) (0, 0, 1) 2 0 = Some (Inr (b, constant_rng (3 / 4)))"
    using constant_rng_returns [of "3 / 4" axis_angle_rotation Strict 2 "(1, 2, 3)" "(0, 0, 1)" 2 0]
    by (auto simp: power2_eq_square)
  have unit: "inner (0, 0, 1) (0, 0, 1) = 1" by simp
  from zero_ang_range_directions [OF ret unit axis_angle_rotation_zero axis_angle_rotation_axis]
  have "get_num_rays b = Inr 2" "ray_direction b 0 = Inr [0, 0, 1]"
    "ray_direction b 1 = Inr [0, 0, 1]"
    by simp_all
  with ret unit show ?thesis by blast
qed

text \<open>
  Claim C5. With \<open>radius > 0\<close> and a unit \<open>direction\<close>, every vertex \<open>v\<close> of the
  returned bundle has \<open>v - center\<close> of length at most \<open>radius\<close>, and so has its
  projection onto the plane through the center normal to \<open>direction\<close>.
\<close>

theorem vertices_inside_disk:
  assumes "solar_disk_bundle gar rule g n center direction radius ang = Some (Inr (b, g'))"
    and "0 < radius" and "inner direction direction = 1"
  shows "get_num_rays b = Inr n
    \<and> (\<forall>j<n. \<exists>v. ray_vertex b j = Inr (vec_list v)
          \<and> vec_norm (plane_projection direction (vec_sub v center)) \<le> radius
          \<and> vec_norm (vec_sub v center) \<le> radius)"
proof -
  from assms(1) obtain xs ys where len: "length xs = n" "length ys = n"
    and inside: "\<forall>j<n. (xs ! j)\<^sup>2 + (ys ! j)\<^sup>2 \<le> radius\<^sup>2"
    and b: "b = \<lparr>vertices = Some (array_of_columns
                   (global_vertices (perp_axis direction) direction center xs ys)),
              direct = Some (array_of_columns
                   (ray_directions gar direction (perp_axis direction)
                      (fst (uniform 0 (2 * pi) n g))
                      (fst (uniform 0 ang n (snd (uniform 0 (2 * pi) n g)))) n)),
              energy = None\<rparr>"
    by (rule solar_disk_bundle_returnsD)
  let ?V = "global_vertices (perp_axis direction) direction center xs ys"
  have lenV: "length ?V = n" using len by (simp add: global_vertices_def)
  have num: "get_num_rays b = Inr n"
    using lenV by (simp add: get_num_rays_def b array_of_columns_def)
  have "\<exists>v. ray_vertex b j = Inr (vec_list v)
      \<and> vec_norm (plane_projection direction (vec_sub v center)) \<le> radius
      \<and> vec_norm (vec_sub v center) \<le> radius" if j: "j < n" for j
  proof -
    let ?w = "mat_vec (perp_axis direction, cross direction (perp_axis direction), direction)
      (xs ! j, ys ! j, 0)"
    have v: "?V ! j = vec_add ?w center"
      using j len by (simp add: global_vertices_nth)
    have read: "ray_vertex b j = Inr (vec_list (?V ! j))"
      using j lenV column_array_of_columns [of j ?V]
      by (simp add: ray_vertex_def get_vertices_def b)
    have w: "inner ?w ?w \<le> radius\<^sup>2"
      using assms(3) inside j by (intro disk_point_bound) simp_all
    have "inner (plane_projection direction ?w) (plane_projection direction ?w) \<le> inner ?w ?w"
      using assms(3) by (rule plane_projection_shorter)
    with w have p: "inner (plane_projection direction ?w) (plane_projection direction ?w)
        \<le> radius\<^sup>2"
      by simp
    from w p assms(2) have n: "vec_norm ?w \<le> radius"
      "vec_norm (plane_projection direction ?w) \<le> radius"
      by (simp_all add: vec_norm_le)
    from v have s: "vec_sub (?V ! j) center = ?w" by (simp only: vec_add_sub)
    have "ray_vertex b j = Inr (vec_list (?V ! j))
        \<and> vec_norm (plane_projection direction (vec_sub (?V ! j) center)) \<le> radius
        \<and> vec_norm (vec_sub (?V ! j) center) \<le> radius"
      unfolding s using read n by blast
    then show ?thesis by (rule exI)
  qed
  with num show ?thesis by blast
qed

text \<open>Claim C5 at one ray sampled at (1, 1) in a disk of radius 2 normal to the x axis.\<close>

theorem vertices_inside_disk_witness:
  "(0 :: real) < 2 \<and> inner (1, 0, 0) (1, 0, 0) = 1
   \<and> (\<exists>b g'. solar_disk_bundle axis_angle_rotation Strict (constant_rng (3 / 4)) 1
             (1, 2, 3) (1, 0, 0) 2 0 = Some (Inr (b, g'))
        \<and> get_num_rays b = Inr 1
        \<and> (\<exists>v. ray_vertex b 0 = Inr (vec_list v)
              \<and> vec_norm (plane_projection (1, 0, 0) (vec_sub v (1, 2, 3))) \<le> 2
              \<and> vec_norm (vec_sub v (1, 2, 3)) \<le> 2))"
proof -
  obtain b where ret: "solar_disk_bundle axis_angle_rotation Strict (constant_rng (3 / 4)) 1
      (1, 2, 3) (1, 0, 0) 2 0 = Some (Inr (b, constant_rng (3 / 4)))"
    using constant_rng_returns [of "3 / 4" axis_angle_rotation Strict 1 "(1, 2, 3)" "(1, 0, 0)" 2 0]
    by (auto simp: power2_eq_square)
  have pos: "(0 :: real) < 2" and unit: "inner (1, 0, 0) (1, 0, 0) = 1" by simp_all
  from vertices_inside_disk [OF ret pos unit] ret pos unit show ?thesis
    by simp
qed

text \<open>
  Claim C9. The bundle the generator returns has no energy: \<open>get_energy\<close> raises
  \<open>AttributeError\<close>. Once the caller sets an energy array of one value for each ray,
  \<open>get_energy\<close> returns it.
\<close>

theorem energy_left_unset:
  assumes "solar_disk_bundle gar rule g n center direction radius ang = Some (Inr (b, g'))"
  shows "get_energy b = Inl AttributeError
    \<and> (\<exists>b'. set_energy b \<lparr>shape = [n], data = e\<rparr> = Inr b'
          \<and> get_energy b' = Inr \<lparr>shape = [n], data = e\<rparr>)"
proof -
  from assms obtain xs ys where len: "length xs = n" "length ys = n"
    and b: "b = \<lparr>vertices = Some (array_of_columns
                   (global_vertices (perp_axis direction) direction center xs ys)),
              direct = Some (array_of_columns
                   (ray_directions gar direction (perp_axis direction)
                      (fst (uniform 0 (2 * pi) n g))
                      (fst (uniform 0 ang n (snd (uniform 0 (2 * pi) n g)))) n)),
              energy = None\<rparr>"
    by (rule solar_disk_bundle_returnsD)
  have "get_num_rays b = Inr n"
    using len by (simp add: get_num_rays_def b array_of_columns_def global_vertices_def)
  then show ?thesis
    by (simp add: get_energy_def set_energy_def b)
qed

text \<open>Claim C9 at two rays.\<close>

theorem energy_left_unset_witness:
  "\<exists>b g'. solar_disk_bundle axis_angle_rotation Strict (constant_rng (1 / 2)) 2
             (1, 2, 3) (0, 0, 1) 1 (1 / 10) = Some (Inr (b, g'))
     \<and> get_energy b = Inl AttributeError
     \<and> (\<exists>b'. set_energy b \<lparr>shape = [2], data = [5, 6]\<rparr> = Inr b'
           \<and> get_energy b' = Inr \<lparr>shape = [2], data = [5, 6]\<rparr>)"
proof -
  obtain b where ret: "solar_disk_bundle axis_angle_rotation Strict (constant_rng (1 / 2)) 2
      (1, 2, 3) (0, 0, 1) 1 (1 / 10) = Some (Inr (b, constant_rng (1 / 2)))"
    using constant_rng_returns [of "1 / 2" axis_angle_rotation Strict 2 "(1, 2, 3)" "(0, 0, 1)" 1
        "1 / 10"]
    by auto
  from energy_left_unset [OF ret, of "[5, 6]"] ret show ?thesis by blast
qed

text \<open>
  Claim C4 says that the generator fails for \<open>direction = (0, 0, 0)\<close>. It does not:
  here it returns a bundle of one ray, whose direction is the zero vector.
\<close>

theorem zero_direction_returns_bundle:
  "map_option (map_sum id fst)
     (solar_disk_bundle axis_angle_rotation Strict (constant_rng (1 / 2)) 1
        (1, 2, 3) (0, 0, 0) 1 0)
   = Some (Inr \<lparr>vertices = Some \<lparr>shape = [3, 1], data = [1, 2, 3]\<rparr>,
                direct = Some \<lparr>shape = [3, 1], data = [0, 0, 0]\<rparr>,
                energy = None\<rparr>)"
proof -
  have "rejection_loop Strict 1 (replicate 1 True) (replicate 1 0) (replicate 1 0) (constant_rng (1 / 2))
    = Some (Inr (fst (uniform (- 1) 1 1 (constant_rng (1 / 2))),
         fst (uniform (- 1) 1 1 (snd (uniform (- 1) 1 1 (constant_rng (1 / 2))))),
         snd (uniform (- 1) 1 1 (snd (uniform (- 1) 1 1 (constant_rng (1 / 2)))))))"
    by (intro rejection_loop_accepts_first_pass) (simp add: uniform_constant_rng)
  then have "rejection_loop Strict 1 (replicate 1 True) (replicate 1 0) (replicate 1 0)
      (snd (uniform 0 0 1 (snd (uniform 0 (2 * pi) 1 (constant_rng (1 / 2))))))
    = Some (Inr ([0], [0], constant_rng (1 / 2)))"
    by (simp add: uniform_constant_rng)
  from solar_disk_bundle_of_loop [OF this, of axis_angle_rotation "(1, 2, 3)" "(0, 0, 0)"]
  show ?thesis
    by (simp add: uniform_constant_rng array_of_columns_def global_vertices_def
        ray_directions_def Let_def)
qed

text \<open>
  Claim C4, amended. The generator does not check \<open>direction\<close>. For
  \<open>direction = (0, 0, 0)\<close> the axis \<open>perp\<close> is the fallback \<open>(1, 0, 0)\<close>, and whenever
  the call returns a bundle for some direction, the call with the zero direction and
  the same other arguments returns a bundle too, of \<open>num_rays\<close> rays with the energy
  unset, and leaves the random generator in the same state.
\<close>

theorem zero_direction_not_checked:
  assumes "solar_disk_bundle gar rule g n center direction radius ang = Some (Inr (b, g'))"
  shows "perp_axis (0, 0, 0) = (1, 0, 0)
    \<and> (\<exists>b0. solar_disk_bundle gar rule g n center (0, 0, 0) radius ang = Some (Inr (b0, g'))
          \<and> get_num_rays b0 = Inr n \<and> get_energy b0 = Inl AttributeError)"
proof -
  from assms obtain xs ys where loop:
    "rejection_loop rule radius (replicate n True) (replicate n 0) (replicate n 0)
      (snd (uniform 0 ang n (snd (uniform 0 (2 * pi) n g)))) = Some (Inr (xs, ys, g'))"
    and len: "length xs = n" "length ys = n"
    by (rule solar_disk_bundle_returnsD)
  from solar_disk_bundle_of_loop [OF loop, of gar center "(0, 0, 0)"] len show ?thesis
    by (simp add: get_num_rays_def get_energy_def array_of_columns_def global_vertices_def)
qed

text \<open>Claim C4 as amended, at two rays.\<close>

theorem zero_direction_not_checked_witness:
  "\<exists>b g'. solar_disk_bundle axis_angle_rotation Cyclic (constant_rng (3 / 4)) 2
             (1, 2, 3) (0, 0, 1) 2 (1 / 10) = Some (Inr (b, g'))
     \<and> (\<exists>b0. solar_disk_bundle axis_angle_rotation Cyclic (constant_rng (3 / 4)) 2
             (1, 2, 3) (0, 0, 0) 2 (1 / 10) = Some (Inr (b0, g'))
           \<and> get_num_rays b0 = Inr 2 \<and> get_energy b0 = Inl AttributeError)"
proof -
  obtain b where ret: "solar_disk_bundle axis_angle_rotation Cyclic (constant_rng (3 / 4)) 2
      (1, 2, 3) (0, 0, 1) 2 (1 / 10) = Some (Inr (b, constant_rng (3 / 4)))"
    using constant_rng_returns [of "3 / 4" axis_angle_rotation Cyclic 2 "(1, 2, 3)" "(0, 0, 1)" 2
        "1 / 10"]
    by (auto simp: power2_eq_square)
  from zero_direction_not_checked [OF ret] ret show ?thesis by blast
qed

end
